theory Spec2Isabelle
  imports Main
begin

section \<open>Listener objects, pointers and faults\<close>

text \<open>
  A listener object is identified by a natural number (its address); a listener interface
  (the template argument \<open>T_Listener\<close> of a container, an element of the packs
  \<open>T_Listeners\<close> and \<open>Args\<close>) is identified by a natural number as well.

  The three pointer types of \<open>observer.h\<close> are options over object identities:
  \<^item> \<open>T_Listener*\<close>: \<open>None\<close> is \<open>nullptr\<close>;
  \<^item> \<open>std::shared_ptr<T_Listener>\<close>: \<open>None\<close> is the empty pointer, which converts to
    \<open>false\<close>;
  \<^item> \<open>std::weak_ptr<T_Listener>\<close>: \<open>None\<close> is the empty weak pointer (the state of a
    moved-from one); \<open>Some a\<close> observes the object \<open>a\<close>, which may have been destroyed.
  The conversions from \<open>Listener<Args...>*\<close> to the base \<open>Args*\<close> and from a shared to a
  weak pointer keep the object and keep null.
\<close>

type_synonym obj = nat
type_synonym iface = nat
type_synonym raw_ptr = "obj option"
type_synonym shared_ptr = "obj option"
type_synonym weak_ptr = "obj option"

text \<open>
  \<open>weak_ptr::lock\<close>, given the set of objects that are alive: the shared pointer to the
  observed object, or the empty shared pointer when the weak pointer is empty or expired.
\<close>

definition lock :: "obj set \<Rightarrow> weak_ptr \<Rightarrow> shared_ptr" where
  "lock live w = (case w of None \<Rightarrow> None | Some a \<Rightarrow> if a \<in> live then Some a else None)"

text \<open>
  What stops \<open>attach\<close> and \<open>detach\<close>: \<open>assert\<close> (compiled in: nothing in the sources defines
  \<open>NDEBUG\<close>) aborts the program, and \<open>vector::erase\<close> on a position that is not
  dereferenceable has undefined behaviour.
\<close>

datatype fault = Assertion_failed | Undefined_behaviour

text \<open>
  A notification function with its arguments bound, \<open>(l->*fn)(args...)\<close>, acts on the
  state \<open>'s\<close> of the world outside the container: called on the object \<open>a\<close> in the state
  \<open>s\<close> it returns normally with the new state (\<open>Inr s'\<close>) or throws the exception \<open>e\<close>,
  leaving the state \<open>s'\<close> (\<open>Inl (e, s')\<close>). It does not touch the container it is called
  from.
\<close>

type_synonym ('e, 's) callback = "obj \<Rightarrow> 's \<Rightarrow> ('e \<times> 's) + 's"

text \<open>
  What stops \<open>notify\<close>: an exception leaving a callback, which nothing in the loop catches,
  or the call of a member function through a null pointer.
\<close>

datatype ('e, 's) stop = Thrown 'e 's | Null_dereference

section \<open>\<open>RawContainer\<close>\<close>

text \<open>The state of a \<open>RawContainer\<close> is its only member, \<open>m_listeners\<close>.\<close>

type_synonym RawContainer = "raw_ptr list"

definition RawContainer_attach :: "RawContainer \<Rightarrow> raw_ptr \<Rightarrow> fault + RawContainer" where
  "RawContainer_attach m_listeners listener =
     (if listener = None then Inl Assertion_failed
      else Inr (m_listeners @ [listener]))"

fun RawContainer_notify_loop ::
  "('e, 's) callback \<Rightarrow> raw_ptr list \<Rightarrow> 's \<Rightarrow> ('e, 's) stop + 's" where
  "RawContainer_notify_loop fn [] s = Inr s"
| "RawContainer_notify_loop fn (l # ls) s =
     (case l of
        None \<Rightarrow> Inl Null_dereference
      | Some a \<Rightarrow>
          (case fn a s of
             Inl (e, s') \<Rightarrow> Inl (Thrown e s')
           | Inr s' \<Rightarrow> RawContainer_notify_loop fn ls s'))"

text \<open>\<open>notify\<close> returns the container as it leaves it, and how the loop ended.\<close>

definition RawContainer_notify ::
  "('e, 's) callback \<Rightarrow> RawContainer \<Rightarrow> 's \<Rightarrow> RawContainer \<times> (('e, 's) stop + 's)" where
  "RawContainer_notify fn m_listeners s =
     (m_listeners, RawContainer_notify_loop fn m_listeners s)"

section \<open>\<open>std::remove_if\<close> and \<open>vector::erase\<close>\<close>

text \<open>
  \<open>std::find_if\<close> over the whole vector: the position of the first element that satisfies
  \<open>pred\<close>, or the length of the vector (the position of \<open>end()\<close>).
\<close>

definition find_if :: "('a \<Rightarrow> bool) \<Rightarrow> 'a list \<Rightarrow> nat" where
  "find_if pred v = length (takeWhile (\<lambda>x. \<not> pred x) v)"

text \<open>
  The loop of \<open>std::remove_if\<close>: \<open>for (; first != last; ++first) if (!pred(*first))
  { *result = std::move(*first); ++result; }\<close>. \<open>moved\<close> gives the state a move leaves
  its source in: unchanged for a raw pointer, empty for a weak pointer.
\<close>

function remove_if_loop ::
  "('a \<Rightarrow> 'a) \<Rightarrow> ('a \<Rightarrow> bool) \<Rightarrow> 'a list \<Rightarrow> nat \<Rightarrow> nat \<Rightarrow> 'a list \<times> nat" where
  "remove_if_loop moved pred v result first =
     (if first < length v then
        (if \<not> pred (v ! first)
         then remove_if_loop moved pred
                ((v[first := moved (v ! first)])[result := v ! first]) (result + 1) (first + 1)
         else remove_if_loop moved pred v result (first + 1))
      else (v, result))"
  by pat_completeness auto
termination
  by (relation "measure (\<lambda>(moved, pred, v, result, first). length v - first)") auto

text \<open>
  \<open>std::remove_if\<close> over the whole vector: the vector as the algorithm leaves it (its
  length unchanged) and the position it returns, the new logical end.
\<close>

definition remove_if :: "('a \<Rightarrow> 'a) \<Rightarrow> ('a \<Rightarrow> bool) \<Rightarrow> 'a list \<Rightarrow> 'a list \<times> nat" where
  "remove_if moved pred v =
     (let first = find_if pred v in
      if first = length v then (v, first)
      else remove_if_loop moved pred v first (first + 1))"

text \<open>
  \<open>vector::erase(pos)\<close>, with one argument: removes the single element at \<open>pos\<close>; \<open>pos\<close>
  must be dereferenceable, so \<open>end()\<close> is not allowed.
\<close>

definition erase :: "'a list \<times> nat \<Rightarrow> fault + 'a list" where
  "erase vp =
     (case vp of (v, pos) \<Rightarrow>
        if pos < length v then Inr (take pos v @ drop (Suc pos) v)
        else Inl Undefined_behaviour)"

text \<open>
  \<open>RawContainer::detach\<close>. The third argument of \<open>std::remove_if\<close> is the pointer
  \<open>listener\<close> itself; it is read as the test for equality with \<open>listener\<close>, which is what
  \<open>std::remove\<close> does with a value.
\<close>

definition RawContainer_detach :: "RawContainer \<Rightarrow> raw_ptr \<Rightarrow> fault + RawContainer" where
  "RawContainer_detach m_listeners listener =
     erase (remove_if (\<lambda>p. p) (\<lambda>p. p = listener) m_listeners)"

section \<open>\<open>SmartContainer\<close>\<close>

text \<open>The state of a \<open>SmartContainer\<close> is its only member, \<open>m_listeners\<close>.\<close>

type_synonym SmartContainer = "weak_ptr list"

definition SmartContainer_attach :: "SmartContainer \<Rightarrow> shared_ptr \<Rightarrow> fault + SmartContainer" where
  "SmartContainer_attach m_listeners listener =
     (if listener = None then Inl Assertion_failed
      else Inr (m_listeners @ [listener]))"

text \<open>
  \<open>SmartContainer::detach\<close>, given the set of objects alive at the call. \<open>ptr.empty()\<close> is
  read as: \<open>ptr\<close> is the empty shared pointer, which is what \<open>lock\<close> returns for an
  expired weak pointer.
\<close>

definition SmartContainer_detach ::
  "obj set \<Rightarrow> SmartContainer \<Rightarrow> shared_ptr \<Rightarrow> fault + SmartContainer" where
  "SmartContainer_detach live m_listeners listener =
     erase (remove_if (\<lambda>w. None)
              (\<lambda>weakListener. let ptr = lock live weakListener in ptr = listener \<or> ptr = None)
              m_listeners)"

text \<open>
  The loop of \<open>SmartContainer::notify\<close>. The objects alive are read from the state of the
  world at each \<open>lock\<close>.
\<close>

fun SmartContainer_notify_loop ::
  "('s \<Rightarrow> obj set) \<Rightarrow> ('e, 's) callback \<Rightarrow> weak_ptr list \<Rightarrow> 's \<Rightarrow> ('e, 's) stop + 's" where
  "SmartContainer_notify_loop live fn [] s = Inr s"
| "SmartContainer_notify_loop live fn (weakListener # ws) s =
     (case lock (live s) weakListener of
        None \<Rightarrow> SmartContainer_notify_loop live fn ws s
      | Some listener \<Rightarrow>
          (case fn listener s of
             Inl (e, s') \<Rightarrow> Inl (Thrown e s')
           | Inr s' \<Rightarrow> SmartContainer_notify_loop live fn ws s'))"

definition SmartContainer_notify ::
  "('s \<Rightarrow> obj set) \<Rightarrow> ('e, 's) callback \<Rightarrow> SmartContainer \<Rightarrow> 's
     \<Rightarrow> SmartContainer \<times> (('e, 's) stop + 's)" where
  "SmartContainer_notify live fn m_listeners s =
     (m_listeners, SmartContainer_notify_loop live fn m_listeners s)"

section \<open>\<open>detail::contains\<close>, \<open>detail::cond\<close> and \<open>Source\<close>\<close>

text \<open>\<open>contains<T, Args...>::value\<close>: the disjunction of \<open>is_same<T, Args>\<close> over the pack.\<close>

primrec contains :: "iface \<Rightarrow> iface list \<Rightarrow> bool" where
  "contains T [] = False"
| "contains T (A # Args) = (T = A \<or> contains T Args)"

text \<open>
  A \<open>Source<T_Container, T_Listeners...>\<close> has one base \<open>T_Container<T>\<close> for each \<open>T\<close> of
  \<open>T_Listeners\<close>: its state gives the state of the base for each interface. The container's
  own \<open>attach\<close> and \<open>detach\<close> are parameters, as the container template is.

  \<open>cond<Contains, T_Container>::attach(s, l)\<close>, where \<open>T_Container\<close> is the base for the
  interface \<open>T\<close>: calls the base's \<open>attach\<close>, and does nothing in the specialisation for
  \<open>false\<close>. \<open>detach\<close> is the same with the base's \<open>detach\<close>.
\<close>

type_synonym 'c Source = "iface \<Rightarrow> 'c"

definition cond_attach ::
  "bool \<Rightarrow> ('c \<Rightarrow> 'p \<Rightarrow> fault + 'c) \<Rightarrow> iface \<Rightarrow> 'c Source \<Rightarrow> 'p \<Rightarrow> fault + 'c Source" where
  "cond_attach Contains container_attach T s l =
     (if Contains then
        (case container_attach (s T) l of
           Inl f \<Rightarrow> Inl f
         | Inr c \<Rightarrow> Inr (s(T := c)))
      else Inr s)"

definition cond_detach ::
  "bool \<Rightarrow> ('c \<Rightarrow> 'p \<Rightarrow> fault + 'c) \<Rightarrow> iface \<Rightarrow> 'c Source \<Rightarrow> 'p \<Rightarrow> fault + 'c Source" where
  "cond_detach Contains container_detach T s l =
     (if Contains then
        (case container_detach (s T) l of
           Inl f \<Rightarrow> Inl f
         | Inr c \<Rightarrow> Inr (s(T := c)))
      else Inr s)"

text \<open>
  \<open>Source::attach\<close> and \<open>Source::detach\<close> for a \<open>Listener<Args...>\<close>, by raw or by shared
  pointer (the two overloads have the same body): the fold over the pack \<open>Args\<close> with the
  comma operator, from left to right.
\<close>

fun Source_attach ::
  "('c \<Rightarrow> 'p \<Rightarrow> fault + 'c) \<Rightarrow> iface list \<Rightarrow> iface list \<Rightarrow> 'c Source \<Rightarrow> 'p
     \<Rightarrow> fault + 'c Source" where
  "Source_attach container_attach T_Listeners [] s listener = Inr s"
| "Source_attach container_attach T_Listeners (A # Args) s listener =
     (case cond_attach (contains A T_Listeners) container_attach A s listener of
        Inl f \<Rightarrow> Inl f
      | Inr s' \<Rightarrow> Source_attach container_attach T_Listeners Args s' listener)"

fun Source_detach ::
  "('c \<Rightarrow> 'p \<Rightarrow> fault + 'c) \<Rightarrow> iface list \<Rightarrow> iface list \<Rightarrow> 'c Source \<Rightarrow> 'p
     \<Rightarrow> fault + 'c Source" where
  "Source_detach container_detach T_Listeners [] s listener = Inr s"
| "Source_detach container_detach T_Listeners (A # Args) s listener =
     (case cond_detach (contains A T_Listeners) container_detach A s listener of
        Inl f \<Rightarrow> Inl f
      | Inr s' \<Rightarrow> Source_detach container_detach T_Listeners Args s' listener)"

text \<open>
  \<open>Source::notify\<close> for a member function of the interface \<open>T\<close>: the \<open>notify\<close> of the base
  \<open>T_Container<T>\<close>, given as \<open>container_notify\<close> with the function bound.
\<close>

definition Source_notify ::
  "('c \<Rightarrow> 's \<Rightarrow> 'c \<times> 'r) \<Rightarrow> 'c Source \<Rightarrow> iface \<Rightarrow> 's \<Rightarrow> 'c Source \<times> 'r" where
  "Source_notify container_notify s T w =
     (case container_notify (s T) w of (c, r) \<Rightarrow> (s(T := c), r))"

section \<open>The convenience overloads\<close>

text \<open>
  \<open>std::static_pointer_cast<typename T::ListenerType>\<close> on a shared pointer to a listener
  of class \<open>T\<close>: the shared pointer to the same object, or the empty one.
\<close>

definition static_pointer_cast :: "shared_ptr \<Rightarrow> shared_ptr" where
  "static_pointer_cast r = r"

text \<open>
  \<open>Source::attach(const std::shared_ptr<T>&)\<close> and the \<open>detach\<close> beside it. \<open>ListenerType\<close>
  is the pack of \<open>T::ListenerType\<close>; the call inside resolves to the overload for
  \<open>std::shared_ptr<Listener<Args...>>\<close>, the more specialised of the two templates.
\<close>

definition Source_attach_convenience ::
  "('c \<Rightarrow> shared_ptr \<Rightarrow> fault + 'c) \<Rightarrow> iface list \<Rightarrow> iface list \<Rightarrow> 'c Source \<Rightarrow> shared_ptr
     \<Rightarrow> fault + 'c Source" where
  "Source_attach_convenience container_attach T_Listeners ListenerType s listener =
     Source_attach container_attach T_Listeners ListenerType s (static_pointer_cast listener)"

definition Source_detach_convenience ::
  "('c \<Rightarrow> shared_ptr \<Rightarrow> fault + 'c) \<Rightarrow> iface list \<Rightarrow> iface list \<Rightarrow> 'c Source \<Rightarrow> shared_ptr
     \<Rightarrow> fault + 'c Source" where
  "Source_detach_convenience container_detach T_Listeners ListenerType s listener =
     Source_detach container_detach T_Listeners ListenerType s (static_pointer_cast listener)"

section \<open>Calling programs\<close>

text \<open>
  A notification function that records the object it is called on at the end of a log,
  and never throws: the log of a \<open>notify\<close> is the sequence of its invocations.
\<close>

definition log_call :: "(unit, obj list) callback" where
  "log_call a tr = Inr (tr @ [a])"

text \<open>
  A notification function that records the object it is called on and returns, except on
  the object \<open>b\<close>, where it records the object and throws it.
\<close>

definition throw_at :: "obj \<Rightarrow> (obj, obj list) callback" where
  "throw_at b a tr = (if a = b then Inl (a, tr @ [a]) else Inr (tr @ [a]))"

text \<open>A program that calls \<open>attach\<close> of one container with each handle of a list in turn.\<close>

fun attach_each :: "('c \<Rightarrow> 'p \<Rightarrow> fault + 'c) \<Rightarrow> 'c \<Rightarrow> 'p list \<Rightarrow> fault + 'c" where
  "attach_each container_attach c [] = Inr c"
| "attach_each container_attach c (l # ls) =
     (case container_attach c l of
        Inl f \<Rightarrow> Inl f
      | Inr c' \<Rightarrow> attach_each container_attach c' ls)"

text \<open>
  A program that calls \<open>Source::attach\<close> with each listener object of a list in turn;
  \<open>ListenerType a\<close> is the pack \<open>Args\<close> of the class \<open>Listener<Args...>\<close> the object \<open>a\<close>
  derives from.
\<close>

fun Source_attach_each ::
  "('c \<Rightarrow> obj option \<Rightarrow> fault + 'c) \<Rightarrow> iface list \<Rightarrow> (obj \<Rightarrow> iface list) \<Rightarrow> 'c Source
     \<Rightarrow> obj list \<Rightarrow> fault + 'c Source" where
  "Source_attach_each container_attach T_Listeners ListenerType s [] = Inr s"
| "Source_attach_each container_attach T_Listeners ListenerType s (a # as) =
     (case Source_attach container_attach T_Listeners (ListenerType a) s (Some a) of
        Inl f \<Rightarrow> Inl f
      | Inr s' \<Rightarrow> Source_attach_each container_attach T_Listeners ListenerType s' as)"

section \<open>Basic facts\<close>

declare remove_if_loop.simps [simp del]

lemmas detach_eval = RawContainer_detach_def SmartContainer_detach_def remove_if_def
  find_if_def erase_def remove_if_loop.simps lock_def

lemma contains_iff: "contains T Args \<longleftrightarrow> T \<in> set Args"
  by (induction Args) auto

lemma raw_loop_append:
  "RawContainer_notify_loop fn (xs @ ys) s =
     (case RawContainer_notify_loop fn xs s of
        Inl f \<Rightarrow> Inl f
      | Inr s' \<Rightarrow> RawContainer_notify_loop fn ys s')"
  by (induction xs arbitrary: s) (auto split: option.splits sum.splits)

lemma smart_loop_append:
  "SmartContainer_notify_loop live fn (xs @ ys) s =
     (case SmartContainer_notify_loop live fn xs s of
        Inl f \<Rightarrow> Inl f
      | Inr s' \<Rightarrow> SmartContainer_notify_loop live fn ys s')"
  by (induction xs arbitrary: s) (auto split: option.splits sum.splits)

lemma raw_loop_log: "RawContainer_notify_loop log_call (map Some as) tr = Inr (tr @ as)"
  by (induction as arbitrary: tr) (auto simp: log_call_def)

lemma smart_loop_log:
  "SmartContainer_notify_loop (\<lambda>w. L) log_call m tr = Inr (tr @ List.map_filter (lock L) m)"
  by (induction m arbitrary: tr) (auto simp: log_call_def List.map_filter_simps split: option.splits)

lemma map_filter_lock_Some: "List.map_filter (lock L) (map Some as) = filter (\<lambda>a. a \<in> L) as"
  by (induction as) (auto simp: List.map_filter_simps lock_def)

lemma map_filter_append:
  "List.map_filter f (xs @ ys) = List.map_filter f xs @ List.map_filter f ys"
  by (simp add: List.map_filter_def)

lemma count_list_filter: "count_list (filter P xs) x = (if P x then count_list xs x else 0)"
  by (induction xs) auto

section \<open>Attaching\<close>

text \<open>
  C9. In both containers \<open>attach\<close> of a null handle stops at the assertion, and \<open>attach\<close>
  of a handle that is not null passes the assertion and appends the handle to
  \<open>m_listeners\<close>.
\<close>

theorem attach_null_asserts_else_appends:
  "RawContainer_attach m None = Inl Assertion_failed
   \<and> SmartContainer_attach m None = Inl Assertion_failed
   \<and> RawContainer_attach m (Some a) = Inr (m @ [Some a])
   \<and> SmartContainer_attach m (Some a) = Inr (m @ [Some a])"
  by (simp add: RawContainer_attach_def SmartContainer_attach_def)

lemma attach_each_append:
  assumes "\<And>c a. container_attach c (Some a) = Inr (c @ [Some a])"
  shows "attach_each container_attach m (map Some as) = Inr (m @ map Some as)"
  by (induction as arbitrary: m) (auto simp: assms)

lemma Source_attach_disjoint:
  "set Args \<inter> set T_Listeners = {} \<Longrightarrow>
   Source_attach container_attach T_Listeners Args s l = Inr s"
  by (induction Args arbitrary: s) (auto simp: cond_attach_def contains_iff)

lemma Source_attach_append:
  assumes "\<And>c. container_attach c (Some a) = Inr (c @ [Some a])" and "distinct Args"
  shows "Source_attach container_attach T_Listeners Args s (Some a) =
     Inr (\<lambda>T. if T \<in> set Args \<and> T \<in> set T_Listeners then s T @ [Some a] else s T)"
  using assms(2)
proof (induction Args arbitrary: s)
  case Nil
  then show ?case by simp
next
  case (Cons A Args)
  then show ?case
    by (auto simp: cond_attach_def contains_iff assms(1) fun_eq_iff)
qed

lemma Source_attach_each_append:
  assumes "\<And>c a. container_attach c (Some a) = Inr (c @ [Some a])"
    and "\<forall>a \<in> set as. distinct (ListenerType a)"
  shows "Source_attach_each container_attach T_Listeners ListenerType s as =
     Inr (\<lambda>T. s T @ map Some (filter (\<lambda>a. T \<in> set (ListenerType a) \<and> T \<in> set T_Listeners) as))"
  using assms(2)
proof (induction as arbitrary: s)
  case Nil
  then show ?case by simp
next
  case (Cons a as)
  then show ?case
    by (auto simp: Source_attach_append [where container_attach = container_attach, OF assms(1)]
        fun_eq_iff)
qed

lemma RawContainer_attach_Some: "RawContainer_attach c (Some a) = Inr (c @ [Some a])"
  by (simp add: RawContainer_attach_def)

lemma SmartContainer_attach_Some: "SmartContainer_attach c (Some a) = Inr (c @ [Some a])"
  by (simp add: SmartContainer_attach_def)

text \<open>
  C1. A source over \<open>T_Listeners\<close> is constructed and \<open>attach\<close> is called with the listener
  objects \<open>as\<close> in turn (an object once for each time it occurs in \<open>as\<close>), each object \<open>a\<close>
  of a class \<open>Listener<ListenerType a...>\<close>, whose pack has no interface twice as the bases
  of a class have none. Then no call fails, and a \<open>notify\<close> of an interface \<open>c\<close> of the
  source calls the operation on the listener \<open>L\<close> once for each \<open>attach\<close> of \<open>L\<close> when
  \<open>L\<close> declares \<open>c\<close>, and never when it does not. This holds for the source over raw
  containers, and for the source over smart containers when \<open>L\<close> is alive at the \<open>notify\<close>
  (there a destroyed \<open>L\<close> is never called).
\<close>

theorem attach_reaches_once_per_attach:
  assumes "\<forall>a \<in> set as. distinct (ListenerType a)" and "c \<in> set T_Listeners"
  shows "(\<exists>s tr. Source_attach_each RawContainer_attach T_Listeners ListenerType (\<lambda>T. []) as = Inr s
            \<and> snd (Source_notify (RawContainer_notify log_call) s c []) = Inr tr
            \<and> count_list tr L = (if c \<in> set (ListenerType L) then count_list as L else 0))
       \<and> (\<exists>s tr. Source_attach_each SmartContainer_attach T_Listeners ListenerType (\<lambda>T. []) as = Inr s
            \<and> snd (Source_notify (SmartContainer_notify (\<lambda>w. live) log_call) s c []) = Inr tr
            \<and> count_list tr L =
                (if c \<in> set (ListenerType L) \<and> L \<in> live then count_list as L else 0))"
proof -
  let ?reg = "filter (\<lambda>a. c \<in> set (ListenerType a) \<and> c \<in> set T_Listeners) as"
  let ?s = "\<lambda>T. [] @ map Some (filter (\<lambda>a. T \<in> set (ListenerType a) \<and> T \<in> set T_Listeners) as)"
  have raw_attach: "Source_attach_each RawContainer_attach T_Listeners ListenerType (\<lambda>T. []) as = Inr ?s"
    by (rule Source_attach_each_append
        [where container_attach = RawContainer_attach, OF RawContainer_attach_Some assms(1)])
  have smart_attach:
    "Source_attach_each SmartContainer_attach T_Listeners ListenerType (\<lambda>T. []) as = Inr ?s"
    by (rule Source_attach_each_append
        [where container_attach = SmartContainer_attach, OF SmartContainer_attach_Some assms(1)])
  have raw: "snd (Source_notify (RawContainer_notify log_call) ?s c []) = Inr ?reg"
    by (simp add: Source_notify_def RawContainer_notify_def raw_loop_log)
  have smart: "snd (Source_notify (SmartContainer_notify (\<lambda>w. live) log_call) ?s c [])
      = Inr (filter (\<lambda>a. a \<in> live) ?reg)"
    by (simp add: Source_notify_def SmartContainer_notify_def smart_loop_log map_filter_lock_Some)
  have c1: "count_list ?reg L = (if c \<in> set (ListenerType L) then count_list as L else 0)"
    using assms(2) by (simp add: count_list_filter)
  have c2: "count_list (filter (\<lambda>a. a \<in> live) ?reg) L =
      (if c \<in> set (ListenerType L) \<and> L \<in> live then count_list as L else 0)"
    using assms(2) by (simp add: count_list_filter)
  from raw_attach raw c1 have "\<exists>s tr.
      Source_attach_each RawContainer_attach T_Listeners ListenerType (\<lambda>T. []) as = Inr s
      \<and> snd (Source_notify (RawContainer_notify log_call) s c []) = Inr tr
      \<and> count_list tr L = (if c \<in> set (ListenerType L) then count_list as L else 0)"
    by blast
  moreover from smart_attach smart c2 have "\<exists>s tr.
      Source_attach_each SmartContainer_attach T_Listeners ListenerType (\<lambda>T. []) as = Inr s
      \<and> snd (Source_notify (SmartContainer_notify (\<lambda>w. live) log_call) s c []) = Inr tr
      \<and> count_list tr L =
          (if c \<in> set (ListenerType L) \<and> L \<in> live then count_list as L else 0)"
    by blast
  ultimately show ?thesis by blast
qed

theorem attach_reaches_once_per_attach_witness:
  "distinct [0::iface] \<and> distinct [0, 1::iface]
   \<and> (0::iface) \<in> set [0, 1]
   \<and> (\<exists>s tr. Source_attach_each RawContainer_attach [0, 1]
                (\<lambda>a. if a = 7 then [0] else [0, 1]) (\<lambda>T. []) [7, 8, 7] = Inr s
          \<and> snd (Source_notify (RawContainer_notify log_call) s 0 []) = Inr tr
          \<and> count_list tr 7 = 2)
   \<and> (\<exists>s tr. Source_attach_each SmartContainer_attach [0, 1]
                (\<lambda>a. if a = 7 then [0] else [0, 1]) (\<lambda>T. []) [7, 8, 7] = Inr s
          \<and> snd (Source_notify (SmartContainer_notify (\<lambda>w. {7}) log_call) s 0 []) = Inr tr
          \<and> count_list tr 7 = 2)"
proof -
  let ?LT = "\<lambda>a::obj. if a = 7 then [0] else [0, 1::iface]"
  have h1: "\<forall>a \<in> set [7, 8, 7]. distinct (?LT a)"
    by simp
  have h2: "(0::iface) \<in> set [0, 1]"
    by simp
  have c1: "(if (0::iface) \<in> set (?LT 7) then count_list [7, 8, 7] (7::obj) else 0) = 2"
    by simp
  have c2: "(if (0::iface) \<in> set (?LT 7) \<and> (7::obj) \<in> {7} then count_list [7, 8, 7] (7::obj) else 0) = 2"
    by simp
  have h3: "distinct [0::iface] \<and> distinct [0, 1::iface]"
    by simp
  show ?thesis
    using h2 h3 attach_reaches_once_per_attach [OF h1 h2, of 7 "{7}"]
    unfolding c1 c2 by blast
qed

text \<open>
  C7. When no interface of the listener's pack \<open>Args\<close> is among the source's
  \<open>T_Listeners\<close>, \<open>Source::attach\<close> returns normally with the state of every container
  unchanged: no container's \<open>attach\<close> is called, whatever it would do with the handle.
\<close>

theorem attach_disjoint_noop:
  "set Args \<inter> set T_Listeners = {} \<Longrightarrow>
   Source_attach container_attach T_Listeners Args s listener = Inr s"
  by (rule Source_attach_disjoint)

theorem attach_disjoint_noop_witness:
  "set [2] \<inter> set [0, 1] = ({}::iface set)
   \<and> Source_attach RawContainer_attach [0, 1] [2] (\<lambda>T. []) None = Inr (\<lambda>T. [])"
  using attach_disjoint_noop [of "[2]" "[0, 1]" RawContainer_attach "\<lambda>T. []" None]
  by simp

section \<open>Notifying\<close>

text \<open>
  C6. A raw container holds the handles of the objects \<open>bs\<close>, attached earlier in this
  order, and \<open>attach\<close> is called with the handles of the objects \<open>as\<close> in turn, with no
  \<open>detach\<close> between. Then no call fails, and \<open>notify\<close> returns normally after calling the
  operation on the objects \<open>bs\<close> and then on the objects \<open>as\<close>, each in the order of the
  \<open>attach\<close> calls, oldest first, an object attached several times at each of its
  positions. For a smart container in any state \<open>m\<close> the same holds of the objects that are
  alive: \<open>notify\<close> returns normally after calling those that \<open>m\<close> resolves to, in the
  stored order, and then those of \<open>as\<close>, in the order of the \<open>attach\<close> calls. With no
  earlier entries (\<open>bs\<close> and \<open>m\<close> empty) the invocations are exactly \<open>as\<close>, and the objects
  alive of \<open>as\<close>.
\<close>

theorem notify_follows_attach_order:
  "(\<exists>m'. attach_each RawContainer_attach (map Some bs) (map Some as) = Inr m'
      \<and> snd (RawContainer_notify log_call m' tr) = Inr (tr @ bs @ as))
   \<and> (\<exists>m'. attach_each SmartContainer_attach m (map Some as) = Inr m'
      \<and> snd (SmartContainer_notify (\<lambda>w. live) log_call m' tr)
          = Inr (tr @ List.map_filter (lock live) m @ filter (\<lambda>a. a \<in> live) as))"
proof -
  have raw: "RawContainer_notify_loop log_call (map Some bs @ map Some as) tr = Inr (tr @ bs @ as)"
    using raw_loop_log [of "bs @ as" tr] by simp
  have smart: "SmartContainer_notify_loop (\<lambda>w. live) log_call (m @ map Some as) tr
      = Inr (tr @ List.map_filter (lock live) m @ filter (\<lambda>a. a \<in> live) as)"
    by (simp add: smart_loop_log map_filter_append map_filter_lock_Some)
  have "attach_each RawContainer_attach (map Some bs) (map Some as)
      = Inr (map Some bs @ map Some as)"
    by (rule attach_each_append [where container_attach = RawContainer_attach,
          OF RawContainer_attach_Some])
  moreover have "attach_each SmartContainer_attach m (map Some as) = Inr (m @ map Some as)"
    by (rule attach_each_append [where container_attach = SmartContainer_attach,
          OF SmartContainer_attach_Some])
  ultimately show ?thesis
    by (simp add: RawContainer_notify_def SmartContainer_notify_def raw smart)
qed

lemma smart_loop_as_raw:
  "SmartContainer_notify_loop (\<lambda>w. L) fn m s
     = RawContainer_notify_loop fn (map Some (List.map_filter (lock L) m)) s"
  by (induction m arbitrary: s) (auto simp: List.map_filter_simps split: option.splits sum.splits)

lemma set_map_filter_lock: "set (List.map_filter (lock L) m) = {a \<in> L. Some a \<in> set m}"
  by (induction m) (auto simp: List.map_filter_simps lock_def split: option.splits if_splits)

lemma count_map_filter_lock:
  "count_list (List.map_filter (lock L) m) a = (if a \<in> L then count_list m (Some a) else 0)"
  by (induction m) (auto simp: List.map_filter_simps lock_def split: option.splits if_splits)

text \<open>
  C4. \<open>SmartContainer::notify\<close> leaves \<open>m_listeners\<close> as it is, whatever the callbacks do.
  With the set \<open>L\<close> of objects alive throughout the call, it does what the loop of the raw
  container does on the pointers that \<open>lock\<close> resolves, in the stored order: the entries
  that are empty or expired contribute no call and no error. So the recorded invocations
  are the stored objects that are alive, each as often as it is stored, and an object that
  has been destroyed is not called although its entry is still stored.
\<close>

theorem smart_notify_skips_expired:
  "fst (SmartContainer_notify live fn m s) = m
   \<and> snd (SmartContainer_notify (\<lambda>w. L) fn m s)
       = snd (RawContainer_notify fn (map Some (List.map_filter (lock L) m)) s)
   \<and> snd (SmartContainer_notify (\<lambda>w. L) log_call m tr) = Inr (tr @ List.map_filter (lock L) m)
   \<and> set (List.map_filter (lock L) m) = {a \<in> L. Some a \<in> set m}
   \<and> count_list (List.map_filter (lock L) m) a = (if a \<in> L then count_list m (Some a) else 0)"
  by (simp add: SmartContainer_notify_def RawContainer_notify_def smart_loop_log
      smart_loop_as_raw [symmetric] set_map_filter_lock count_map_filter_lock)

text \<open>
  C8. When the callbacks on the entries before some entry return normally and the callback
  on that entry throws \<open>e\<close>, \<open>notify\<close> ends with this \<open>e\<close> and with the world as the throwing
  callback left it: no callback runs on the entries after it. This holds in the raw
  container, and in the smart container for an entry that \<open>lock\<close> resolves. With callbacks
  that never throw, \<open>notify\<close> returns normally after the callback has run on every object
  of the raw container in turn, and on every object alive of the smart container.
\<close>

theorem notify_fails_fast:
  assumes "snd (RawContainer_notify fn pre s) = Inr s1"
    and "snd (SmartContainer_notify live fn wpre s) = Inr s1"
    and "lock (live s1) w = Some a"
    and "fn a s1 = Inl (e, s2)"
  shows "snd (RawContainer_notify fn (pre @ Some a # post) s) = Inl (Thrown e s2)
       \<and> snd (SmartContainer_notify live fn (wpre @ w # wpost) s) = Inl (Thrown e s2)
       \<and> snd (RawContainer_notify (\<lambda>a s. Inr (g a s)) (map Some as) s0) = Inr (fold g as s0)
       \<and> snd (SmartContainer_notify (\<lambda>w. L) (\<lambda>a s. Inr (g a s)) m s0)
           = Inr (fold g (List.map_filter (lock L) m) s0)"
proof -
  have 1: "RawContainer_notify_loop (\<lambda>a s. Inr (g a s)) (map Some as) s0 = Inr (fold g as s0)"
    by (induction as arbitrary: s0) auto
  have 2: "SmartContainer_notify_loop (\<lambda>w. L) (\<lambda>a s. Inr (g a s)) m s0
         = Inr (fold g (List.map_filter (lock L) m) s0)"
    by (induction m arbitrary: s0) (auto simp: List.map_filter_simps split: option.splits)
  show ?thesis
    using assms 1 2
    by (simp add: RawContainer_notify_def SmartContainer_notify_def raw_loop_append smart_loop_append)
qed

theorem notify_fails_fast_witness:
  "snd (RawContainer_notify (throw_at 8) [Some 7] []) = Inr [7]
   \<and> snd (SmartContainer_notify (\<lambda>w. {7, 8, 9}) (throw_at 8) [Some 5, Some 7] []) = Inr [7]
   \<and> lock ((\<lambda>w. {7, 8, 9}) [7]) (Some 8) = Some 8
   \<and> throw_at 8 8 [7] = Inl (8, [7, 8])
   \<and> snd (RawContainer_notify (throw_at 8) ([Some 7] @ Some 8 # [Some 9]) []) = Inl (Thrown 8 [7, 8])
   \<and> snd (SmartContainer_notify (\<lambda>w. {7, 8, 9}) (throw_at 8) ([Some 5, Some 7] @ Some 8 # [Some 9]) [])
        = Inl (Thrown 8 [7, 8])
   \<and> snd (RawContainer_notify (\<lambda>a tr. Inr (tr @ [a]) :: obj \<times> obj list + obj list)
           (map Some [7, 9]) []) = Inr (fold (\<lambda>a tr. tr @ [a]) [7, 9] [])
   \<and> snd (SmartContainer_notify (\<lambda>w. {7, 9})
           (\<lambda>a tr. Inr (tr @ [a]) :: obj \<times> obj list + obj list) [Some 7, Some 8, Some 9] [])
        = Inr (fold (\<lambda>a tr. tr @ [a]) (List.map_filter (lock {7, 9}) [Some 7, Some 8, Some 9]) [])"
proof -
  have h1: "snd (RawContainer_notify (throw_at 8) [Some 7] []) = Inr [7]"
    by (simp add: RawContainer_notify_def throw_at_def)
  have h2: "snd (SmartContainer_notify (\<lambda>w. {7, 8, 9}) (throw_at 8) [Some 5, Some 7] []) = Inr [7]"
    by (simp add: SmartContainer_notify_def throw_at_def lock_def)
  have h3: "lock ((\<lambda>w. {7, 8, 9}) [7]) (Some 8) = Some 8"
    by (simp add: lock_def)
  have h4: "throw_at 8 8 [7] = Inl (8, [7, 8])"
    by (simp add: throw_at_def)
  show ?thesis
    using h1 h2 h3 h4
      notify_fails_fast [OF h1 h2 h3 h4, where post = "[Some 9]" and wpost = "[Some 9]"
        and g = "\<lambda>a tr. tr @ [a]" and as = "[7, 9]" and ?s0.0 = "[]" and L = "{7, 9}"
        and m = "[Some 7, Some 8, Some 9]"]
    by simp
qed

section \<open>The convenience overloads agree with the direct ones\<close>

text \<open>
  C10. For a listener class \<open>T\<close> that derives from \<open>Listener<ListenerType...>\<close>, the
  overloads of \<open>attach\<close> and \<open>detach\<close> for \<open>std::shared_ptr<T>\<close> leave the source in the same
  state, or fail with the same fault, as the overloads for
  \<open>std::shared_ptr<Listener<Args...>>\<close> called with the same handle.
\<close>

theorem convenience_overloads_agree:
  "Source_attach_convenience SmartContainer_attach T_Listeners ListenerType s listener
     = Source_attach SmartContainer_attach T_Listeners ListenerType s listener
   \<and> Source_detach_convenience (SmartContainer_detach live) T_Listeners ListenerType s listener
     = Source_detach (SmartContainer_detach live) T_Listeners ListenerType s listener"
  by (simp add: Source_attach_convenience_def Source_detach_convenience_def static_pointer_cast_def)

section \<open>Detaching\<close>

text \<open>
  What \<open>std::remove_if\<close> promises holds of the loop above: the length of the vector is
  unchanged, and up to the returned position it holds the elements that do not satisfy
  the predicate, in their order. Erasing the one element at that position is undefined
  when no element satisfies the predicate, and otherwise shortens the vector by one slot,
  however many elements satisfy it.
\<close>

lemma remove_if_loop_inv:
  "result \<le> first \<Longrightarrow> first \<le> length v \<Longrightarrow>
   remove_if_loop moved pred v result first = (v', r) \<Longrightarrow>
   length v' = length v \<and> r \<le> length v
   \<and> take r v' = take result v @ filter (\<lambda>x. \<not> pred x) (drop first v)"
proof (induction moved pred v result first arbitrary: v' r rule: remove_if_loop.induct)
  case (1 moved pred v result first)
  show ?case
  proof (cases "first < length v")
    case False
    with "1.prems" show ?thesis
      by (simp add: remove_if_loop.simps)
  next
    case True
    note lt = True
    show ?thesis
    proof (cases "pred (v ! first)")
      case True
      with lt "1.prems" have "remove_if_loop moved pred v result (first + 1) = (v', r)"
        by (simp add: remove_if_loop.simps)
      from "1.IH"(2) [OF lt _ _ _ this] True lt "1.prems"(1)
      have "length v' = length v \<and> r \<le> length v
        \<and> take r v' = take result v @ filter (\<lambda>x. \<not> pred x) (drop (first + 1) v)"
        by simp
      moreover have "drop first v = v ! first # drop (first + 1) v"
        using lt by (simp add: Cons_nth_drop_Suc)
      ultimately show ?thesis using True by simp
    next
      case False
      let ?w = "(v[first := moved (v ! first)])[result := v ! first]"
      from False lt "1.prems" have "remove_if_loop moved pred ?w (result + 1) (first + 1) = (v', r)"
        by (simp add: remove_if_loop.simps)
      from "1.IH"(1) [OF lt _ _ _ this] False lt "1.prems"(1)
      have *: "length v' = length v \<and> r \<le> length v
        \<and> take r v' = take (result + 1) ?w @ filter (\<lambda>x. \<not> pred x) (drop (first + 1) ?w)"
        by simp
      have d: "drop (first + 1) ?w = drop (first + 1) v"
        using "1.prems"(1) by simp
      have t: "take (result + 1) ?w = take result v @ [v ! first]"
        using "1.prems"(1) lt by (simp add: take_Suc_conv_app_nth)
      have "drop first v = v ! first # drop (first + 1) v"
        using lt by (simp add: Cons_nth_drop_Suc)
      with * d t False show ?thesis by simp
    qed
  qed
qed

lemma find_if_le: "find_if pred v \<le> length v"
  by (simp add: find_if_def length_takeWhile_le)

lemma find_if_end: "find_if pred v = length v \<longleftrightarrow> (\<forall>x \<in> set v. \<not> pred x)"
  unfolding find_if_def
  by (induction v) auto

lemma find_if_hit: "find_if pred v < length v \<Longrightarrow> pred (v ! find_if pred v)"
  unfolding find_if_def
  by (metis nth_length_takeWhile)

lemma find_if_before: "filter (\<lambda>x. \<not> pred x) (take (find_if pred v) v) = take (find_if pred v) v"
  unfolding find_if_def
  by (induction v) auto

lemma remove_if_contract:
  assumes "remove_if moved pred v = (v', r)"
  shows "length v' = length v \<and> r \<le> length v \<and> take r v' = filter (\<lambda>x. \<not> pred x) v"
proof (cases "find_if pred v = length v")
  case True
  then have f: "filter (\<lambda>x. \<not> pred x) v = v"
    by (simp add: find_if_end)
  from True assms have "v' = v" and "r = length v"
    by (auto simp: remove_if_def)
  then show ?thesis
    by (simp add: f)
next
  case False
  let ?f = "find_if pred v"
  from False have lt: "?f < length v"
    using find_if_le [of pred v] by simp
  from False assms have "remove_if_loop moved pred v ?f (?f + 1) = (v', r)"
    by (simp add: remove_if_def Let_def)
  from remove_if_loop_inv [OF _ _ this] lt
  have *: "length v' = length v \<and> r \<le> length v
    \<and> take r v' = take ?f v @ filter (\<lambda>x. \<not> pred x) (drop (?f + 1) v)"
    by simp
  have "v = take ?f v @ v ! ?f # drop (?f + 1) v"
    using lt by (simp add: id_take_nth_drop)
  then have "filter (\<lambda>x. \<not> pred x) v
      = filter (\<lambda>x. \<not> pred x) (take ?f v) @ filter (\<lambda>x. \<not> pred x) (v ! ?f # drop (?f + 1) v)"
    by (metis filter_append)
  also have "\<dots> = take ?f v @ filter (\<lambda>x. \<not> pred x) (drop (?f + 1) v)"
    using find_if_hit [OF lt] by (simp add: find_if_before)
  finally show ?thesis using * by simp
qed

lemma remove_if_end:
  "snd (remove_if moved pred v) = length (filter (\<lambda>x. \<not> pred x) v)"
proof -
  obtain v' r where e: "remove_if moved pred v = (v', r)"
    by (cases "remove_if moved pred v")
  from remove_if_contract [OF e] have "length (take r v') = length (filter (\<lambda>x. \<not> pred x) v)"
    and "r \<le> length v'"
    by simp_all
  with e show ?thesis by simp
qed

lemma detach_erases_one_slot:
  "erase (remove_if moved pred v) =
     (if \<forall>x \<in> set v. \<not> pred x then Inl Undefined_behaviour
      else Inr (filter (\<lambda>x. \<not> pred x) v
                @ drop (Suc (length (filter (\<lambda>x. \<not> pred x) v))) (fst (remove_if moved pred v))))"
proof -
  obtain v' r where e: "remove_if moved pred v = (v', r)"
    by (cases "remove_if moved pred v")
  from remove_if_contract [OF e]
  have c: "length v' = length v" "take r v' = filter (\<lambda>x. \<not> pred x) v"
    by simp_all
  have r: "r = length (filter (\<lambda>x. \<not> pred x) v)"
    using remove_if_end [of moved pred v] e by simp
  have "r < length v \<longleftrightarrow> \<not> (\<forall>x \<in> set v. \<not> pred x)"
    unfolding r
    by (metis filter_True length_filter_less linorder_not_less order_less_irrefl filter_id_conv length_filter_le le_neq_implies_less)
  with e c r show ?thesis
    by (simp add: erase_def)
qed

lemma RawContainer_detach_absent:
  "listener \<notin> set m \<Longrightarrow> RawContainer_detach m listener = Inl Undefined_behaviour"
  by (auto simp: RawContainer_detach_def detach_erases_one_slot)

lemma RawContainer_detach_present:
  assumes "listener \<in> set m"
  shows "\<exists>m'. RawContainer_detach m listener = Inr m' \<and> Suc (length m') = length m
           \<and> take (length (filter (\<lambda>p. p \<noteq> listener) m)) m' = filter (\<lambda>p. p \<noteq> listener) m"
proof -
  let ?keep = "filter (\<lambda>p. p \<noteq> listener) m"
  obtain v' r where e: "remove_if (\<lambda>p. p) (\<lambda>p. p = listener) m = (v', r)"
    by (cases "remove_if (\<lambda>p. p) (\<lambda>p. p = listener) m")
  from remove_if_contract [OF e] have len: "length v' = length m"
    by simp
  have lt: "length ?keep < length m"
    using assms by (simp add: length_filter_less)
  have "RawContainer_detach m listener = Inr (?keep @ drop (Suc (length ?keep))
      (fst (remove_if (\<lambda>p. p) (\<lambda>p. p = listener) m)))"
    using assms by (auto simp: RawContainer_detach_def detach_erases_one_slot)
  then have "RawContainer_detach m listener = Inr (?keep @ drop (Suc (length ?keep)) v')"
    by (simp add: e)
  moreover have "Suc (length (?keep @ drop (Suc (length ?keep)) v')) = length m"
    using len lt by simp
  ultimately show ?thesis
    by simp
qed

lemma SmartContainer_detach_absent:
  assumes "\<forall>w \<in> set m. lock live w \<noteq> listener \<and> lock live w \<noteq> None"
  shows "SmartContainer_detach live m listener = Inl Undefined_behaviour"
  using assms by (auto simp: SmartContainer_detach_def detach_erases_one_slot)

lemma SmartContainer_detach_present:
  assumes "SmartContainer_detach live m listener = Inr m'"
  shows "Suc (length m') = length m"
proof -
  let ?pred = "\<lambda>weakListener. let ptr = lock live weakListener in ptr = listener \<or> ptr = None"
  obtain v' r where e: "remove_if (\<lambda>w. None) ?pred m = (v', r)"
    by (cases "remove_if (\<lambda>w. None) ?pred m")
  from remove_if_contract [OF e] have len: "length v' = length m"
    by simp
  from assms e have "r < length v'" and "m' = take r v' @ drop (Suc r) v'"
    by (auto simp: SmartContainer_detach_def erase_def split: if_splits)
  with len show ?thesis
    by simp
qed

text \<open>
  C2, evaluated. \<open>RawContainer::detach\<close> passes \<open>vector::erase\<close> the single position that
  \<open>std::remove_if\<close> returns, so one slot is erased, not the range up to \<open>end()\<close>. A
  handle attached twice is still stored after \<open>detach\<close>; with another handle behind the two,
  both are gone and the other handle is stored twice; and \<open>detach\<close> of a handle that was
  never attached erases at \<open>end()\<close>.
\<close>

theorem RawContainer_detach_at_duplicate_and_absent:
  "RawContainer_detach [Some 7, Some 7] (Some 7) = Inr [Some 7]
   \<and> RawContainer_detach [Some 7, Some 7, Some 8] (Some 7) = Inr [Some 8, Some 8]
   \<and> RawContainer_detach [Some 8] (Some 7) = Inl Undefined_behaviour"
  by (simp add: detach_eval)

text \<open>
  C3, evaluated. \<open>SmartContainer::detach\<close> erases one slot as well. A handle stored twice
  is still stored after \<open>detach\<close>; so is a handle stored behind an expired entry (here the
  object 5 has been destroyed); behind two expired entries an empty weak pointer stays
  stored; and with no entry that matches or has expired, \<open>detach\<close> erases at \<open>end()\<close>.
\<close>

theorem SmartContainer_detach_at_duplicate_expired_and_absent:
  "SmartContainer_detach {7} [Some 7, Some 7] (Some 7) = Inr [Some 7]
   \<and> SmartContainer_detach {7} [Some 5, Some 7] (Some 7) = Inr [Some 7]
   \<and> SmartContainer_detach {7, 8} [Some 5, Some 6, Some 8] (Some 7) = Inr [Some 8, None]
   \<and> SmartContainer_detach {7, 8} [Some 8] (Some 7) = Inl Undefined_behaviour"
  by (simp add: detach_eval)

text \<open>
  C5, evaluated. In a raw source the listener 7 is attached; then \<open>attach\<close>, \<open>detach\<close> and
  \<open>notify\<close> follow, and the operation is called on 7. In a smart source the listener 5 is
  attached and destroyed; then \<open>attach\<close> and \<open>detach\<close> of the listener 7 and \<open>notify\<close>
  follow, and the operation is called on 7.
\<close>

theorem attach_detach_notify_still_reaches:
  "(\<exists>s1 s2 s3.
      Source_attach RawContainer_attach [0] [0] (\<lambda>T. []) (Some 7) = Inr s1
    \<and> Source_attach RawContainer_attach [0] [0] s1 (Some 7) = Inr s2
    \<and> Source_detach RawContainer_detach [0] [0] s2 (Some 7) = Inr s3
    \<and> snd (Source_notify (RawContainer_notify log_call) s3 0 []) = Inr [7])
   \<and> (\<exists>s1 s2 s3.
      Source_attach SmartContainer_attach [0] [0] (\<lambda>T. []) (Some 5) = Inr s1
    \<and> Source_attach SmartContainer_attach [0] [0] s1 (Some 7) = Inr s2
    \<and> Source_detach (SmartContainer_detach {7}) [0] [0] s2 (Some 7) = Inr s3
    \<and> snd (Source_notify (SmartContainer_notify (\<lambda>w. {7}) log_call) s3 0 []) = Inr [7])"
proof -
  have raw: "RawContainer_detach [Some 7, Some 7] (Some 7) = Inr [Some 7]"
    by (simp add: detach_eval)
  have smart: "SmartContainer_detach {7} [Some 5, Some 7] (Some 7) = Inr [Some 7]"
    by (simp add: detach_eval)
  have "Source_attach RawContainer_attach [0] [0] (\<lambda>T. []) (Some 7) = Inr ((\<lambda>T. [])(0 := [Some 7]))
    \<and> Source_attach RawContainer_attach [0] [0] ((\<lambda>T. [])(0 := [Some 7])) (Some 7)
        = Inr ((\<lambda>T. [])(0 := [Some 7, Some 7]))
    \<and> Source_detach RawContainer_detach [0] [0] ((\<lambda>T. [])(0 := [Some 7, Some 7])) (Some 7)
        = Inr ((\<lambda>T. [])(0 := [Some 7]))
    \<and> snd (Source_notify (RawContainer_notify log_call) ((\<lambda>T. [])(0 := [Some 7])) 0 []) = Inr [7]"
    by (simp add: cond_attach_def cond_detach_def RawContainer_attach_def Source_notify_def
        RawContainer_notify_def log_call_def raw)
  moreover have "Source_attach SmartContainer_attach [0] [0] (\<lambda>T. []) (Some 5)
        = Inr ((\<lambda>T. [])(0 := [Some 5]))
    \<and> Source_attach SmartContainer_attach [0] [0] ((\<lambda>T. [])(0 := [Some 5])) (Some 7)
        = Inr ((\<lambda>T. [])(0 := [Some 5, Some 7]))
    \<and> Source_detach (SmartContainer_detach {7}) [0] [0] ((\<lambda>T. [])(0 := [Some 5, Some 7])) (Some 7)
        = Inr ((\<lambda>T. [])(0 := [Some 7]))
    \<and> snd (Source_notify (SmartContainer_notify (\<lambda>w. {7}) log_call) ((\<lambda>T. [])(0 := [Some 7])) 0 [])
        = Inr [7]"
    by (simp add: cond_attach_def cond_detach_def SmartContainer_attach_def Source_notify_def
        SmartContainer_notify_def log_call_def smart lock_def)
  ultimately show ?thesis by blast
qed

end
